theory Spec2Isabelle
  imports Complex_Main "HOL-Library.Sublist" "HOL-Library.Word" "HOL-Library.Code_Target_Nat"
begin

section \<open>Image handler: data model\<close>

text \<open>
  The module \<^verbatim>\<open>js/imageHandler.js\<close> defines one class, \<^verbatim>\<open>ImageHandler\<close>, with a
  validation policy (\<^verbatim>\<open>maxFileSize\<close>, \<^verbatim>\<open>allowedTypes\<close>) and five methods. A browser
  \<^verbatim>\<open>File\<close> is modelled by the three attributes the code reads (\<^verbatim>\<open>name\<close>,
  \<^verbatim>\<open>size\<close>, \<^verbatim>\<open>type\<close>) and by the outcome of reading its byte source with a
  \<^verbatim>\<open>FileReader\<close>: \<open>Some bytes\<close> when the reader fires \<^verbatim>\<open>onload\<close>, \<open>None\<close> when it
  fires \<^verbatim>\<open>onerror\<close>.

  \<^verbatim>\<open>File.size\<close> is a non-negative integer-valued Number, hence a \<open>nat\<close>. JavaScript
  strings are modelled as \<open>string\<close>; the mime type of a \<^verbatim>\<open>Blob\<close> is printable
  ASCII, and file names are only passed through.
\<close>

type_synonym byte = "8 word"

record File =
  file_name :: string
  file_size :: nat
  file_type :: string
  file_bytes :: "byte list option"

text \<open>The fields \<^verbatim>\<open>this.maxFileSize\<close> and \<^verbatim>\<open>this.allowedTypes\<close> of the handler.\<close>

record handler =
  maxFileSize :: nat
  allowedTypes :: "string list"

text \<open>The constructor: \<^verbatim>\<open>5 * 1024 * 1024\<close> bytes and the five image types.\<close>

definition ImageHandler :: handler where
  "ImageHandler =
     \<lparr> maxFileSize = 5 * 1024 * 1024,
       allowedTypes = [''image/jpeg'', ''image/jpg'', ''image/png'', ''image/gif'', ''image/webp''] \<rparr>"

text \<open>The object literal \<^verbatim>\<open>{ valid, errors }\<close> returned by \<^verbatim>\<open>validateImage\<close>.\<close>

record validation =
  valid :: bool
  errors :: "string list"

section \<open>The built-ins used by the validator\<close>

text \<open>\<^verbatim>\<open>Array.prototype.includes\<close> on an array of strings: membership.\<close>

definition array_includes :: "string list \<Rightarrow> string \<Rightarrow> bool" where
  "array_includes xs x = (x \<in> set xs)"

text \<open>\<^verbatim>\<open>Array.prototype.join(sep)\<close>: the elements with \<open>sep\<close> between neighbours.\<close>

fun join :: "string \<Rightarrow> string list \<Rightarrow> string" where
  "join sep [] = []"
| "join sep [x] = x"
| "join sep (x # y # ys) = x @ sep @ join sep (y # ys)"

text \<open>Decimal digits of a non-negative integer, as Number-to-String conversion prints them.\<close>

definition digit_char :: "nat \<Rightarrow> char" where
  "digit_char d = ''0123456789'' ! (d mod 10)"

definition is_digit :: "char \<Rightarrow> bool" where
  "is_digit c = (c \<in> set ''0123456789'')"

fun show_nat :: "nat \<Rightarrow> string" where
  "show_nat n = (if n < 10 then [digit_char n] else show_nat (n div 10) @ [digit_char (n mod 10)])"

declare show_nat.simps [simp del]

text \<open>
  \<^verbatim>\<open>Number.prototype.toFixed(2)\<close>, following ECMA-262: for \<open>x < 0\<close> the sign is
  printed and \<open>x\<close> negated. Below \<open>10\<^sup>2\<^sup>1\<close>, \<open>n\<close> is the integer for which
  \<open>n / 100 - x\<close> is as close to zero as possible, the larger one if there are two; its
  digits are padded with zeros to at least three, and the point is put before the last
  two. From \<open>10\<^sup>2\<^sup>1\<close> on the result is that of Number-to-String conversion, which is
  in exponent notation there.

  The argument is a rational number. In \<^verbatim>\<open>(file.size / 1024 / 1024).toFixed(2)\<close> the
  dividend is an integer-valued double and both divisors are powers of two, so both
  floating-point quotients are exact and the double is the rational \<open>size / 1024 / 1024\<close>.
\<close>

definition nearest_hundredths :: "rat \<Rightarrow> nat" where
  "nearest_hundredths x = nat \<lfloor>x * 100 + 1 / 2\<rfloor>"

definition fixed2_digits :: "nat \<Rightarrow> string" where
  "fixed2_digits n =
     (let m = show_nat n;
          m = (if length m \<le> 2 then replicate (3 - length m) (CHR ''0'') @ m else m);
          k = length m
      in take (k - 2) m @ ''.'' @ drop (k - 2) m)"

text \<open>
  Number-to-String conversion of a double \<open>x \<ge> 10\<^sup>2\<^sup>1\<close> (ECMA-262, Number::toString):
  with \<open>k\<close> as small as possible, \<open>s\<close> has \<open>k\<close> decimal digits, \<open>s \<times> 10\<^sup>n\<^sup>-\<^sup>k\<close> is a
  number whose nearest double is \<open>x\<close>, and of several such \<open>s\<close> the one closest to
  \<open>x\<close> is taken; the result is the first digit of \<open>s\<close>, a point and the other digits
  if there are any, and \<open>e+\<close> with \<open>n - 1\<close>. Doubles of this size are integers with a
  53-bit significand; \<open>round_double\<close> is rounding to the nearest of them, ties to the
  even significand, and what lies beyond the largest double is \<open>Infinity\<close>. Seventeen
  digits always suffice.
\<close>

fun bit_length :: "nat \<Rightarrow> nat" where
  "bit_length n = (if n = 0 then 0 else Suc (bit_length (n div 2)))"

declare bit_length.simps [simp del]

definition round_double :: "rat \<Rightarrow> nat" where
  "round_double x =
     (let e = bit_length (nat \<lfloor>x\<rfloor>) - 1;
          q = 2 ^ (e - 52);
          m = nat \<lfloor>x / of_nat q\<rfloor>;
          r = x - of_nat (m * q)
      in if of_nat q < 2 * r \<or> (of_nat q = 2 * r \<and> odd m) then (m + 1) * q else m * q)"

definition digits_for :: "nat \<Rightarrow> nat \<Rightarrow> nat \<Rightarrow> nat option" where
  "digits_for v n k =
     (let p = 10 ^ (n - k);
          lo = v div p;
          ok = (\<lambda>s. 10 ^ (k - 1) \<le> s \<and> s < 10 ^ k \<and> round_double (of_nat (s * p)) = v);
          below = v - lo * p;
          above = (lo + 1) * p - v
      in if ok lo \<and> ok (lo + 1) then
           (if below < above \<or> (below = above \<and> even lo) then Some lo else Some (lo + 1))
         else if ok lo then Some lo
         else if ok (lo + 1) then Some (lo + 1)
         else None)"

fun shortest_digits :: "nat \<Rightarrow> nat \<Rightarrow> nat list \<Rightarrow> nat" where
  "shortest_digits v n [] = v div 10 ^ (n - 17)"
| "shortest_digits v n (k # ks) =
     (case digits_for v n k of Some s \<Rightarrow> s | None \<Rightarrow> shortest_digits v n ks)"

definition exponent_notation :: "rat \<Rightarrow> string" where
  "exponent_notation x =
     (let v = round_double x
      in if 2 ^ 1024 \<le> v then ''Infinity''
         else
           (let d = length (show_nat v);
                n = (if round_double (of_nat (10 ^ d)) = v then d + 1 else d);
                m = show_nat (shortest_digits v n [1..<18])
            in (if length m = 1 then m else hd m # ''.'' @ tl m) @ ''e+'' @ show_nat (n - 1)))"

definition toFixed2_abs :: "rat \<Rightarrow> string" where
  "toFixed2_abs x =
     (if 10 ^ 21 \<le> x then exponent_notation x else fixed2_digits (nearest_hundredths x))"

definition toFixed2 :: "rat \<Rightarrow> string" where
  "toFixed2 x = (if x < 0 then ''-'' @ toFixed2_abs (- x) else toFixed2_abs x)"

text \<open>A string of the shape \<open>d\<dots>d.dd\<close>: digits, a point, exactly two digits.\<close>

definition two_decimals :: "string \<Rightarrow> bool" where
  "two_decimals s =
     (4 \<le> length s \<and> s ! (length s - 3) = CHR ''.'' \<and>
      list_all is_digit (take (length s - 3) s) \<and> list_all is_digit (drop (length s - 2) s))"

text \<open>
  Reading a string of that shape back as a number: the digits before the point plus the
  two digits after it as hundredths. It is used to say what a rendered size means.
\<close>

definition digit_val :: "char \<Rightarrow> nat" where
  "digit_val c = of_char c - 48"

definition read_nat :: "string \<Rightarrow> nat" where
  "read_nat s = foldl (\<lambda>a c. 10 * a + digit_val c) 0 s"

definition fixed2_value :: "string \<Rightarrow> rat" where
  "fixed2_value s =
     of_nat (read_nat (take (length s - 3) s)) + of_nat (read_nat (drop (length s - 2) s)) / 100"

section \<open>validateImage\<close>

text \<open>
  The two checks run one after the other on the same mutable \<^verbatim>\<open>result\<close>; each one that
  fails clears \<^verbatim>\<open>valid\<close> and pushes its message.
\<close>

definition type_error :: "handler \<Rightarrow> File \<Rightarrow> string" where
  "type_error h f =
     ''Invalid file type: '' @ file_type f @ ''. Allowed types: '' @ join '', '' (allowedTypes h)"

definition size_error :: "handler \<Rightarrow> File \<Rightarrow> string" where
  "size_error h f =
     ''File too large: '' @ toFixed2 (of_nat (file_size f) / 1024 / 1024) @
     ''MB. Maximum size: '' @ toFixed2 (of_nat (maxFileSize h) / 1024 / 1024) @ ''MB''"

definition push :: "'a list \<Rightarrow> 'a \<Rightarrow> 'a list" where
  "push xs x = xs @ [x]"

definition validateImage :: "handler \<Rightarrow> File \<Rightarrow> validation" where
  "validateImage h f =
     (let result = \<lparr> valid = True, errors = [] \<rparr>;
          result = (if \<not> array_includes (allowedTypes h) (file_type f)
                    then result \<lparr> valid := False, errors := push (errors result) (type_error h f) \<rparr>
                    else result);
          result = (if file_size f > maxFileSize h
                    then result \<lparr> valid := False, errors := push (errors result) (size_error h f) \<rparr>
                    else result)
      in result)"

section \<open>Reading a file as a data URL\<close>

text \<open>
  Modelled from the spec: the module never encodes anything itself; it hands the file to
  the host's \<^verbatim>\<open>FileReader\<close>, whose code is not part of the module. The spec calls the
  result a base64 data URI. Base64 is taken as in RFC 4648 (standard alphabet, with
  padding): three bytes are a 24-bit number, printed as four 6-bit digits; a last group of
  one or two bytes is filled with zero bits and closed with \<open>==\<close> or \<open>=\<close>. The
  decoder reads groups of four characters back and rejects anything else.
\<close>

definition b64_alphabet :: string where
  "b64_alphabet = ''ABCDEFGHIJKLMNOPQRSTUVWXYZabcdefghijklmnopqrstuvwxyz0123456789+/''"

definition b64_char :: "nat \<Rightarrow> char" where
  "b64_char i = b64_alphabet ! i"

fun index_of :: "'a \<Rightarrow> 'a list \<Rightarrow> nat option" where
  "index_of c [] = None"
| "index_of c (x # xs) = (if c = x then Some 0 else map_option Suc (index_of c xs))"

definition b64_index :: "char \<Rightarrow> nat option" where
  "b64_index c = index_of c b64_alphabet"

fun base64_encode :: "byte list \<Rightarrow> string" where
  "base64_encode [] = []"
| "base64_encode [a] =
     (let n = unat a * 65536
      in [b64_char (n div 262144), b64_char (n div 4096 mod 64)] @ ''=='')"
| "base64_encode [a, b] =
     (let n = unat a * 65536 + unat b * 256
      in [b64_char (n div 262144), b64_char (n div 4096 mod 64), b64_char (n div 64 mod 64)] @
         ''='')"
| "base64_encode (a # b # c # rest) =
     (let n = unat a * 65536 + unat b * 256 + unat c
      in [b64_char (n div 262144), b64_char (n div 4096 mod 64), b64_char (n div 64 mod 64),
          b64_char (n mod 64)] @ base64_encode rest)"

fun base64_decode :: "string \<Rightarrow> byte list option" where
  "base64_decode [] = Some []"
| "base64_decode (c0 # c1 # c2 # c3 # rest) =
     (if rest = [] \<and> c2 = CHR ''='' \<and> c3 = CHR ''='' then
        (case (b64_index c0, b64_index c1) of
           (Some s0, Some s1) \<Rightarrow>
             (let n = s0 * 262144 + s1 * 4096 in Some [of_nat (n div 65536)])
         | _ \<Rightarrow> None)
      else if rest = [] \<and> c3 = CHR ''='' then
        (case (b64_index c0, b64_index c1, b64_index c2) of
           (Some s0, Some s1, Some s2) \<Rightarrow>
             (let n = s0 * 262144 + s1 * 4096 + s2 * 64
              in Some [of_nat (n div 65536), of_nat (n div 256 mod 256)])
         | _ \<Rightarrow> None)
      else
        (case (b64_index c0, b64_index c1, b64_index c2, b64_index c3) of
           (Some s0, Some s1, Some s2, Some s3) \<Rightarrow>
             (let n = s0 * 262144 + s1 * 4096 + s2 * 64 + s3
              in case base64_decode rest of
                   None \<Rightarrow> None
                 | Some bs \<Rightarrow>
                     Some (of_nat (n div 65536) # of_nat (n div 256 mod 256) # of_nat (n mod 256) # bs))
         | _ \<Rightarrow> None))"
| "base64_decode _ = None"

text \<open>
  Modelled from the spec: \<^verbatim>\<open>FileReader.readAsDataURL\<close> is an API of the host, not
  code of the module. The spec says of it: the file's full byte content is encoded as a
  base64 data URI \<^verbatim>\<open>data:<mime>;base64,<payload>\<close>, mirroring the file's declared mime
  type. The value is what \<^verbatim>\<open>onload\<close> receives as \<^verbatim>\<open>e.target.result\<close>; \<open>None\<close> is
  \<^verbatim>\<open>onerror\<close>.
\<close>

definition readAsDataURL :: "File \<Rightarrow> string option" where
  "readAsDataURL f =
     map_option (\<lambda>bs. ''data:'' @ file_type f @ '';base64,'' @ base64_encode bs) (file_bytes f)"

text \<open>The part of a data URL after \<^verbatim>\<open>data:<mime>;base64,\<close>.\<close>

definition payload :: "string \<Rightarrow> string \<Rightarrow> string" where
  "payload mime uri = drop (length (''data:'' @ mime @ '';base64,'')) uri"

section \<open>createPreview and convertToDataUrl\<close>

text \<open>
  A promise that resolves with a value is \<open>Inr\<close>, one that rejects with
  \<^verbatim>\<open>new Error(message)\<close> is \<open>Inl (Error message)\<close>.
\<close>

datatype js_error = Error string

definition createPreview :: "File \<Rightarrow> js_error + string" where
  "createPreview f =
     (case readAsDataURL f of
        Some result \<Rightarrow> Inr result
      | None \<Rightarrow> Inl (Error ''Failed to create preview''))"

definition convertToDataUrl :: "File \<Rightarrow> js_error + string" where
  "convertToDataUrl f =
     (case readAsDataURL f of
        Some result \<Rightarrow> Inr result
      | None \<Rightarrow> Inl (Error ''Failed to convert file''))"

section \<open>processImages\<close>

text \<open>
  The loop pushes onto \<^verbatim>\<open>processedImages\<close> and has three more effects, kept in a trace
  in the order they happen: \<^verbatim>\<open>console.warn\<close> for an invalid file, \<^verbatim>\<open>console.error\<close>
  for a failed preview, and the \<^verbatim>\<open>await\<close> of a zero-delay timer, which hands control
  to the browser.
\<close>

record processedImage =
  img_file :: File
  previewUrl :: string
  img_name :: string
  img_size :: nat
  img_type :: string

datatype event =
    ConsoleWarn string "string list"
  | ConsoleError string js_error
  | Yield

record run =
  processedImages :: "processedImage list"
  trace :: "event list"

text \<open>One iteration of the \<^verbatim>\<open>for\<close> loop, at index \<open>i < length files\<close>.\<close>

definition processImages_body :: "handler \<Rightarrow> File list \<Rightarrow> nat \<Rightarrow> run \<Rightarrow> run" where
  "processImages_body h files i s =
     (let file = files ! i;
          validation = validateImage h file;
          s = (if valid validation then
                 (case createPreview file of
                    Inr url \<Rightarrow>
                      s \<lparr> processedImages := push (processedImages s)
                            \<lparr> img_file = file, previewUrl = url, img_name = file_name file,
                              img_size = file_size file, img_type = file_type file \<rparr> \<rparr>
                  | Inl error \<Rightarrow>
                      s \<lparr> trace := push (trace s)
                            (ConsoleError (''Error processing file '' @ file_name file @ '':'') error) \<rparr>)
               else
                 s \<lparr> trace := push (trace s)
                       (ConsoleWarn (''Invalid file '' @ file_name file @ '':'') (errors validation)) \<rparr>)
      in if i mod 10 = 9 then s \<lparr> trace := push (trace s) Yield \<rparr> else s)"

function processImages_loop :: "handler \<Rightarrow> File list \<Rightarrow> nat \<Rightarrow> run \<Rightarrow> run" where
  "processImages_loop h files i s =
     (if i < length files then processImages_loop h files (i + 1) (processImages_body h files i s)
      else s)"
  by pat_completeness auto
termination
  by (relation "measure (\<lambda>(h, files, i, s). length files - i)") auto

declare processImages_loop.simps [simp del]

definition processImages :: "handler \<Rightarrow> File list \<Rightarrow> run" where
  "processImages h files = processImages_loop h files 0 \<lparr> processedImages = [], trace = [] \<rparr>"

text \<open>What the returned promise resolves to, and how often the loop yielded.\<close>

definition processed :: "handler \<Rightarrow> File list \<Rightarrow> processedImage list" where
  "processed h files = processedImages (processImages h files)"

definition yields :: "event list \<Rightarrow> nat" where
  "yields tr = length (filter (\<lambda>e. e = Yield) tr)"

section \<open>uploadImage and uploadImages\<close>

text \<open>
  The two shapes of an upload result: \<^verbatim>\<open>{ success: true, url, filename, size }\<close> and
  \<^verbatim>\<open>{ success: false, error, filename }\<close>.
\<close>

datatype uploadResult =
    Success (url: string) (filename: string) (upload_size: nat)
  | Failure (error_message: string) (filename: string)

text \<open>
  \<^verbatim>\<open>uploadImage\<close> first awaits a 500 ms timer, which has no effect on the value, and
  then \<^verbatim>\<open>convertToDataUrl\<close>, whose rejection it passes on.
\<close>

definition uploadImage :: "File \<Rightarrow> js_error + uploadResult" where
  "uploadImage f =
     (case convertToDataUrl f of
        Inl e \<Rightarrow> Inl e
      | Inr dataUrl \<Rightarrow> Inr (Success dataUrl (file_name f) (file_size f)))"

fun uploadImages_loop :: "File list \<Rightarrow> uploadResult list \<Rightarrow> uploadResult list" where
  "uploadImages_loop [] results = results"
| "uploadImages_loop (file # files) results =
     uploadImages_loop files
       (case uploadImage file of
          Inr result \<Rightarrow> push results result
        | Inl (Error message) \<Rightarrow> push results (Failure message (file_name file)))"

definition uploadImages :: "File list \<Rightarrow> uploadResult list" where
  "uploadImages files = uploadImages_loop files []"

section \<open>Notions used to state the properties\<close>

text \<open>
  A file is accepted when it passes validation and its preview is produced; \<open>image_of\<close>
  is the record the loop pushes for it; \<open>diagnostics\<close> are the console events of one
  iteration; \<open>upload_entry\<close> is what one iteration of \<^verbatim>\<open>uploadImages\<close> pushes.
\<close>
definition accepted :: "handler \<Rightarrow> File \<Rightarrow> bool" where
  "accepted h f = (valid (validateImage h f) \<and> \<not> isl (createPreview f))"

definition image_of :: "File \<Rightarrow> processedImage" where
  "image_of f =
     \<lparr> img_file = f, previewUrl = projr (createPreview f), img_name = file_name f,
       img_size = file_size f, img_type = file_type f \<rparr>"

definition diagnostics :: "handler \<Rightarrow> File \<Rightarrow> event list" where
  "diagnostics h f =
     (if valid (validateImage h f) then
        (case createPreview f of
           Inr u \<Rightarrow> []
         | Inl error \<Rightarrow> [ConsoleError (''Error processing file '' @ file_name f @ '':'') error])
      else [ConsoleWarn (''Invalid file '' @ file_name f @ '':'') (errors (validateImage h f))])"

definition upload_entry :: "File \<Rightarrow> uploadResult" where
  "upload_entry f =
     (case uploadImage f of Inr result \<Rightarrow> result | Inl (Error message) \<Rightarrow> Failure message (file_name f))"

definition all_valid :: "handler \<Rightarrow> File list \<Rightarrow> bool" where
  "all_valid h files = list_all (\<lambda>f. valid (validateImage h f)) files"

definition all_previewed :: "File list \<Rightarrow> bool" where
  "all_previewed files = list_all (\<lambda>f. \<not> isl (createPreview f)) files"

text \<open>Concrete files and batches on which the properties are exercised.\<close>

definition sample_image :: "nat \<Rightarrow> File" where
  "sample_image k =
     \<lparr> file_name = ''photo'' @ show_nat k @ ''.png'', file_size = 2048,
       file_type = ''image/png'', file_bytes = Some [137, 80, 78, 71, of_nat k] \<rparr>"

definition sample_text :: File where
  "sample_text =
     \<lparr> file_name = ''notes.txt'', file_size = 6000000, file_type = ''text/plain'',
       file_bytes = Some [104, 105] \<rparr>"

definition unreadable :: "File \<Rightarrow> File" where
  "unreadable f = f \<lparr> file_bytes := None \<rparr>"

definition sample_batch :: "File list" where
  "sample_batch = map sample_image [0..<25]"

text \<open>Twenty-five files of which the one at index 3 is invalid and the one at index 7 unreadable.\<close>

definition failing_batch :: "File list" where
  "failing_batch =
     map (\<lambda>k. if k = 3 then sample_text else if k = 7 then unreadable (sample_image k)
               else sample_image k) [0..<25]"

text \<open>Twenty-five files that all pass validation, the one at index 4 unreadable.\<close>

definition unreadable_batch :: "File list" where
  "unreadable_batch =
     map (\<lambda>k. if k = 4 then unreadable (sample_image k) else sample_image k) [0..<25]"

text \<open>Three files to upload, the second unreadable.\<close>

definition upload_batch :: "File list" where
  "upload_batch = [sample_image 0, unreadable (sample_image 1), sample_text]"

section \<open>Number formatting\<close>

lemma digit_char_cases: "d < 10 \<Longrightarrow> is_digit (digit_char d) \<and> digit_val (digit_char d) = d"
proof -
  assume "d < 10"
  then have "d \<in> {0,1,2,3,4,5,6,7,8,9}" by auto
  then show ?thesis
    by (auto simp: digit_char_def is_digit_def digit_val_def)
qed

lemma is_digit_digit_char: "is_digit (digit_char d)"
  using digit_char_cases [of "d mod 10"] by (simp add: digit_char_def)

lemma digit_val_digit_char: "digit_val (digit_char d) = d mod 10"
  using digit_char_cases [of "d mod 10"] by (simp add: digit_char_def)

lemma show_nat_digits: "list_all is_digit (show_nat n)"
  by (induction n rule: show_nat.induct) (subst show_nat.simps, simp add: is_digit_digit_char)

lemma show_nat_nonempty: "show_nat n \<noteq> []"
  by (subst show_nat.simps) simp

lemma read_nat_snoc: "read_nat (s @ [c]) = 10 * read_nat s + digit_val c"
  by (simp add: read_nat_def)

lemma read_nat_show_nat: "read_nat (show_nat n) = n"
proof (induction n rule: show_nat.induct)
  case (1 n)
  show ?case
  proof (cases "n < 10")
    case True
    then show ?thesis
      by (subst show_nat.simps) (simp add: read_nat_def digit_val_digit_char)
  next
    case False
    with 1 show ?thesis
      by (subst show_nat.simps) (simp add: read_nat_snoc digit_val_digit_char)
  qed
qed

lemma show_nat_two: "10 \<le> n \<Longrightarrow> show_nat n = show_nat (n div 10) @ [digit_char (n mod 10)]"
  by (subst show_nat.simps) simp

lemma show_nat_one: "n < 10 \<Longrightarrow> show_nat n = [digit_char n]"
  by (subst show_nat.simps) simp

lemma fixed2_digits_eq:
  "fixed2_digits n = show_nat (n div 100) @ ''.'' @ [digit_char (n div 10), digit_char n]"
proof -
  consider "n < 10" | "10 \<le> n" "n < 100" | "100 \<le> n" by linarith
  then show ?thesis
  proof cases
    case 1
    then show ?thesis
      by (simp add: fixed2_digits_def show_nat_one digit_char_def)
  next
    case 2
    then have "show_nat n = [digit_char (n div 10), digit_char n]"
      by (simp add: show_nat_two show_nat_one digit_char_def)
    with 2 show ?thesis
      by (simp add: fixed2_digits_def show_nat_one digit_char_def)
  next
    case 3
    then have t1: "show_nat n = show_nat (n div 10) @ [digit_char (n mod 10)]"
      by (intro show_nat_two) simp
    from 3 have "10 \<le> n div 10" by simp
    then have t2: "show_nat (n div 10) = show_nat (n div 10 div 10) @ [digit_char (n div 10 mod 10)]"
      by (rule show_nat_two)
    have d: "n div 10 div 10 = n div 100"
      using div_mult2_eq [of n 10 10] by simp
    have dc: "digit_char (n mod 10) = digit_char n" "digit_char (n div 10 mod 10) = digit_char (n div 10)"
      by (simp_all add: digit_char_def)
    have a: "show_nat n = show_nat (n div 100) @ [digit_char (n div 10), digit_char n]"
      by (simp only: t1 t2 d dc append_assoc append_Cons append_Nil)
    have "show_nat (n div 100) \<noteq> []" by (rule show_nat_nonempty)
    then have "1 \<le> length (show_nat (n div 100))" by (cases "show_nat (n div 100)") auto
    with a show ?thesis
      by (simp add: fixed2_digits_def Let_def show_nat_nonempty)
  qed
qed

lemma two_decimals_fixed2_digits: "two_decimals (fixed2_digits n)"
  using show_nat_nonempty [of "n div 100"] show_nat_digits [of "n div 100"]
  by (cases "show_nat (n div 100)")
     (auto simp: fixed2_digits_eq two_decimals_def nth_append is_digit_digit_char)

lemma fixed2_value_fixed2_digits: "fixed2_value (fixed2_digits n) = of_nat n / 100"
proof -
  have "read_nat [digit_char (n div 10), digit_char n] = 10 * (n div 10 mod 10) + n mod 10"
    by (simp add: read_nat_def digit_val_digit_char)
  also have "\<dots> = n mod 100"
    using mod_mult2_eq [of n 10 10] by simp
  finally have "fixed2_value (fixed2_digits n) = of_nat (n div 100) + of_nat (n mod 100) / 100"
    by (simp add: fixed2_value_def fixed2_digits_eq read_nat_show_nat)
  also have "\<dots> = of_nat (100 * (n div 100) + n mod 100) / 100"
    unfolding of_nat_add of_nat_mult add_divide_distrib by simp
  finally show ?thesis by simp
qed

lemma nearest_hundredths_close:
  assumes "0 \<le> x"
  shows "\<bar>of_nat (nearest_hundredths x) / 100 - x\<bar> \<le> 1 / 200"
proof -
  let ?k = "\<lfloor>x * 100 + 1 / 2\<rfloor>"
  have nonneg: "0 \<le> ?k" using assms by simp
  have "of_int ?k \<le> x * 100 + 1 / 2" "x * 100 + 1 / 2 < of_int ?k + 1"
    by linarith+
  moreover have "rat_of_nat (nearest_hundredths x) = of_int ?k"
    using nonneg by (simp add: nearest_hundredths_def)
  ultimately have "- (1 / 2) \<le> rat_of_nat (nearest_hundredths x) - x * 100"
    "rat_of_nat (nearest_hundredths x) - x * 100 \<le> 1 / 2"
    by linarith+
  then show ?thesis
    by linarith
qed

section \<open>Base64\<close>

lemma b64_alphabet_length: "length b64_alphabet = 64"
  by (simp add: b64_alphabet_def)

lemma b64_alphabet_distinct: "distinct b64_alphabet"
  by (simp add: b64_alphabet_def)

lemma b64_alphabet_no_pad: "CHR ''='' \<notin> set b64_alphabet"
  by (simp add: b64_alphabet_def)

lemma index_of_nth: "distinct xs \<Longrightarrow> i < length xs \<Longrightarrow> index_of (xs ! i) xs = Some i"
proof (induction xs arbitrary: i)
  case Nil
  then show ?case by simp
next
  case (Cons x xs)
  then show ?case by (cases i) auto
qed

lemma b64_index_char: "i < 64 \<Longrightarrow> b64_index (b64_char i) = Some i"
  by (simp add: b64_index_def b64_char_def index_of_nth b64_alphabet_distinct b64_alphabet_length)

lemma b64_char_not_pad:
  assumes "i < 64"
  shows "b64_char i \<noteq> CHR ''=''"
proof -
  from assms have "b64_alphabet ! i \<in> set b64_alphabet"
    by (simp add: b64_alphabet_length)
  with b64_alphabet_no_pad show ?thesis
    by (auto simp: b64_char_def)
qed

lemma sextets:
  fixes n :: nat
  assumes "n < 16777216"
  shows "n div 262144 < 64" "n div 4096 mod 64 < 64" "n div 64 mod 64 < 64" "n mod 64 < 64"
    "n div 262144 * 262144 + n div 4096 mod 64 * 4096 + n div 64 mod 64 * 64 + n mod 64 = n"
proof -
  show "n div 262144 < 64"
    using assms by (intro less_mult_imp_div_less) simp
  show "n div 4096 mod 64 < 64" "n div 64 mod 64 < 64" "n mod 64 < 64"
    by simp_all
  have d1: "n div 4096 = n div 64 div 64"
    using div_mult2_eq [of n 64 64] by simp
  have d2: "n div 262144 = n div 4096 div 64"
    using div_mult2_eq [of n 4096 64] by simp
  have e1: "n = n div 64 * 64 + n mod 64"
    by simp
  have e2: "n div 64 = n div 4096 * 64 + n div 64 mod 64"
    unfolding d1 by simp
  have e3: "n div 4096 = n div 262144 * 64 + n div 4096 mod 64"
    unfolding d2 by simp
  from e1 e2 e3
  show "n div 262144 * 262144 + n div 4096 mod 64 * 4096 + n div 64 mod 64 * 64 + n mod 64 = n"
    by linarith
qed

lemma byte_parts:
  fixes x y z :: nat
  assumes "x < 256" "y < 256" "z < 256"
  shows "(x * 65536 + y * 256 + z) div 65536 = x"
    "(x * 65536 + y * 256 + z) div 256 mod 256 = y"
    "(x * 65536 + y * 256 + z) mod 256 = z"
    "x * 65536 + y * 256 + z < 16777216"
proof -
  show "(x * 65536 + y * 256 + z) div 65536 = x"
    using assms by (intro div_nat_eqI) simp_all
  have "(x * 65536 + y * 256 + z) div 256 = x * 256 + y"
    using assms by (intro div_nat_eqI) simp_all
  then show "(x * 65536 + y * 256 + z) div 256 mod 256 = y"
    using assms by simp
  have "x * 65536 + y * 256 + z = (x * 256 + y) * 256 + z"
    by simp
  then show "(x * 65536 + y * 256 + z) mod 256 = z"
    using assms by (simp only: mod_mult_self3 mod_less)
  show "x * 65536 + y * 256 + z < 16777216"
    using assms by linarith
qed

lemma decode_group3:
  fixes a b c :: byte
  defines "n \<equiv> unat a * 65536 + unat b * 256 + unat c"
  shows "base64_decode
           (b64_char (n div 262144) # b64_char (n div 4096 mod 64) # b64_char (n div 64 mod 64) #
            b64_char (n mod 64) # rest) =
         (case base64_decode rest of None \<Rightarrow> None | Some bs \<Rightarrow> Some (a # b # c # bs))"
proof -
  have lt: "unat a < 256" "unat b < 256" "unat c < 256"
    using unsigned_less [of a] unsigned_less [of b] unsigned_less [of c] by simp_all
  then have n: "n < 16777216"
    unfolding n_def by (rule byte_parts(4))
  note s = sextets [OF n]
  have bytes: "n div 65536 = unat a" "n div 256 mod 256 = unat b" "n mod 256 = unat c"
    unfolding n_def using lt by (simp_all only: byte_parts)
  show ?thesis
    by (simp add: b64_index_char b64_char_not_pad s bytes split: option.splits)
qed

lemma decode_group2:
  fixes a b :: byte
  defines "n \<equiv> unat a * 65536 + unat b * 256"
  shows "base64_decode
           [b64_char (n div 262144), b64_char (n div 4096 mod 64), b64_char (n div 64 mod 64),
            CHR ''=''] = Some [a, b]"
proof -
  have lt: "unat a < 256" "unat b < 256"
    using unsigned_less [of a] unsigned_less [of b] by simp_all
  have n0: "n = unat a * 65536 + unat b * 256 + 0"
    by (simp add: n_def)
  from lt have n: "n < 16777216"
    unfolding n0 by (intro byte_parts(4)) simp_all
  note s = sextets [OF n]
  have "n = (unat a * 1024 + unat b * 4) * 64"
    by (simp add: n_def)
  then have low: "n mod 64 = 0"
    by (simp only: mod_mult_self2_is_0)
  have bytes: "n div 65536 = unat a" "n div 256 mod 256 = unat b"
    unfolding n0 using lt by (simp_all only: byte_parts)
  from s(5) low have "n div 262144 * 262144 + n div 4096 mod 64 * 4096 + n div 64 mod 64 * 64 = n"
    by simp
  then show ?thesis
    by (simp add: b64_index_char b64_char_not_pad s bytes)
qed

lemma decode_group1:
  fixes a :: byte
  defines "n \<equiv> unat a * 65536"
  shows "base64_decode
           [b64_char (n div 262144), b64_char (n div 4096 mod 64), CHR ''='', CHR ''=''] = Some [a]"
proof -
  have lt: "unat a < 256"
    using unsigned_less [of a] by simp
  have n0: "n = unat a * 65536 + 0 * 256 + 0"
    by (simp add: n_def)
  from lt have n: "n < 16777216"
    unfolding n0 by (intro byte_parts(4)) simp_all
  note s = sextets [OF n]
  have "n = unat a * 1024 * 64" "n div 64 = unat a * 16 * 64"
    by (simp_all add: n_def)
  then have low: "n mod 64 = 0" "n div 64 mod 64 = 0"
    by (simp_all only: mod_mult_self2_is_0)
  have bytes: "n div 65536 = unat a"
    unfolding n_def by simp
  from s(5) low have "n div 262144 * 262144 + n div 4096 mod 64 * 4096 = n"
    by simp
  then show ?thesis
    by (simp add: b64_index_char s bytes)
qed

lemma base64_roundtrip: "base64_decode (base64_encode bs) = Some bs"
proof (induction bs rule: base64_encode.induct)
  case 1
  then show ?case by simp
next
  case (2 a)
  show ?case using decode_group1 [of a] by (simp add: Let_def)
next
  case (3 a b)
  show ?case using decode_group2 [of a b] by (simp add: Let_def)
next
  case (4 a b c rest)
  then show ?case
    by (simp only: base64_encode.simps Let_def append_Cons append_Nil decode_group3) simp
qed

section \<open>The validator and the two loops\<close>

lemma validateImage_valid:
  "valid (validateImage h f) = (file_type f \<in> set (allowedTypes h) \<and> file_size f \<le> maxFileSize h)"
  by (simp add: validateImage_def array_includes_def push_def not_less Let_def)

lemma validateImage_errors:
  "errors (validateImage h f) =
     (if file_type f \<in> set (allowedTypes h) then [] else [type_error h f]) @
     (if file_size f \<le> maxFileSize h then [] else [size_error h f])"
  by (simp add: validateImage_def array_includes_def push_def not_less Let_def)

lemma type_error_neq_size_error: "type_error h f \<noteq> size_error h' f'"
  by (simp add: type_error_def size_error_def)

lemma body_images:
  "processedImages (processImages_body h files i s) =
     processedImages s @ (if accepted h (files ! i) then [image_of (files ! i)] else [])"
  by (simp add: processImages_body_def accepted_def image_of_def push_def Let_def
           split: sum.splits)

lemma body_trace:
  "trace (processImages_body h files i s) =
     trace s @ diagnostics h (files ! i) @ (if i mod 10 = 9 then [Yield] else [])"
  by (simp add: processImages_body_def diagnostics_def push_def Let_def split: sum.splits)

lemma loop_images:
  "processedImages (processImages_loop h files i s) =
     processedImages s @ map image_of (filter (accepted h) (drop i files))"
proof (induction h files i s rule: processImages_loop.induct)
  case (1 h files i s)
  show ?case
  proof (cases "i < length files")
    case True
    then have d: "drop i files = files ! i # drop (Suc i) files"
      by (simp add: Cons_nth_drop_Suc)
    from True 1 show ?thesis
      by (subst processImages_loop.simps) (simp add: body_images d)
  next
    case False
    then show ?thesis
      by (subst processImages_loop.simps) simp
  qed
qed

lemma loop_trace:
  "trace (processImages_loop h files i s) =
     trace s @ concat (map (\<lambda>j. diagnostics h (files ! j) @ (if j mod 10 = 9 then [Yield] else []))
                        [i..<length files])"
proof (induction h files i s rule: processImages_loop.induct)
  case (1 h files i s)
  show ?case
  proof (cases "i < length files")
    case True
    then have u: "[i..<length files] = i # [Suc i..<length files]"
      by (simp add: upt_conv_Cons)
    from True 1 show ?thesis
      by (subst processImages_loop.simps) (simp add: body_trace u)
  next
    case False
    then show ?thesis
      by (subst processImages_loop.simps) simp
  qed
qed

lemma processed_eq: "processed h files = map image_of (filter (accepted h) files)"
  by (simp add: processed_def processImages_def loop_images)

lemma trace_eq:
  "trace (processImages h files) =
     concat (map (\<lambda>j. diagnostics h (files ! j) @ (if j mod 10 = 9 then [Yield] else []))
               [0..<length files])"
  by (simp add: processImages_def loop_trace)

lemma yields_diagnostics: "yields (diagnostics h f) = 0"
  by (simp add: yields_def diagnostics_def split: sum.splits)

lemma yields_append: "yields (xs @ ys) = yields xs + yields ys"
  by (simp add: yields_def)

lemma yields_upto:
  "yields (concat (map (\<lambda>j. diagnostics h (files ! j) @ (if j mod 10 = 9 then [Yield] else []))
                     [0..<n])) = n div 10"
proof (induction n)
  case 0
  then show ?case by (simp add: yields_def)
next
  case (Suc n)
  have a: "yields (if n mod 10 = 9 then [Yield] else []) = (if n mod 10 = 9 then 1 else 0)"
    by (simp add: yields_def)
  have b: "n div 10 + (if n mod 10 = 9 then 1 else 0) = Suc n div 10"
    by presburger
  from Suc have "yields (concat (map (\<lambda>j. diagnostics h (files ! j) @ (if j mod 10 = 9 then [Yield] else []))
                     [0..<Suc n])) = n div 10 + (if n mod 10 = 9 then 1 else 0)"
    by (simp add: yields_append yields_diagnostics a)
  with b show ?case by simp
qed

lemma yields_processImages: "yields (trace (processImages h files)) = length files div 10"
  by (simp add: trace_eq yields_upto)

lemma img_file_image_of: "map img_file (map image_of fs) = fs"
  by (induction fs) (simp_all add: image_of_def)

lemma filter_by_index:
  "filter P xs = map ((!) xs) (filter (\<lambda>i. P (xs ! i)) [0..<length xs])"
proof -
  have "filter P (map ((!) xs) [0..<length xs]) = map ((!) xs) (filter (P \<circ> (!) xs) [0..<length xs])"
    by (rule filter_map)
  then show ?thesis
    by (simp add: map_nth comp_def)
qed

lemma length_filter_two_out:
  assumes "a < n" "b < n" "a \<noteq> b"
  shows "length (filter (\<lambda>i. i \<noteq> a \<and> i \<noteq> b) [0..<n]) = n - 2"
proof -
  have "length (filter (\<lambda>i. i \<noteq> a \<and> i \<noteq> b) [0..<n]) = card ({i. i \<noteq> a \<and> i \<noteq> b} \<inter> set [0..<n])"
    by (simp add: distinct_length_filter)
  also have "{i. i \<noteq> a \<and> i \<noteq> b} \<inter> set [0..<n] = {..<n} - {a, b}"
    by auto
  also have "card ({..<n} - {a, b}) = n - 2"
    using assms by (simp add: card_Diff_subset)
  finally show ?thesis .
qed

lemma upload_loop: "uploadImages_loop files results = results @ map upload_entry files"
  by (induction files arbitrary: results)
     (auto simp: upload_entry_def push_def split: sum.splits js_error.splits)

lemma uploadImages_eq: "uploadImages files = map upload_entry files"
  by (simp add: uploadImages_def upload_loop)

lemma readAsDataURL_None: "readAsDataURL f = None \<longleftrightarrow> file_bytes f = None"
  by (simp add: readAsDataURL_def)

section \<open>Properties of the validator\<close>

lemma toFixed2_two_decimals: "0 \<le> x \<Longrightarrow> x < 10 ^ 21 \<Longrightarrow> two_decimals (toFixed2 x)"
  by (simp add: toFixed2_def toFixed2_abs_def two_decimals_fixed2_digits)

lemma toFixed2_value:
  "0 \<le> x \<Longrightarrow> x < 10 ^ 21 \<Longrightarrow> \<bar>fixed2_value (toFixed2 x) - x\<bar> \<le> 1 / 200"
  using nearest_hundredths_close [of x]
  by (simp add: toFixed2_def toFixed2_abs_def fixed2_value_fixed2_digits)

lemma megabytes_nonneg: "0 \<le> (of_nat n :: rat) / 1024 / 1024"
  by simp

lemma megabytes_below_limit:
  assumes "n < 2 ^ 64"
  shows "(of_nat n :: rat) / 1024 / 1024 < 10 ^ 21"
proof -
  from assms have "(of_nat n :: rat) < of_nat (2 ^ 64)"
    by (simp only: of_nat_less_iff)
  then have "(of_nat n :: rat) < 2 ^ 64"
    by simp
  then have "(of_nat n :: rat) / 1024 / 1024 < 2 ^ 64 / 1024 / 1024"
    by (simp add: divide_strict_right_mono)
  also have "\<dots> < (10 :: rat) ^ 21"
    by simp
  finally show ?thesis .
qed

lemma sample_text_type_error:
  "type_error ImageHandler sample_text =
     ''Invalid file type: text/plain. Allowed types: image/jpeg, image/jpg, image/png, image/gif, image/webp''"
  by (simp add: type_error_def ImageHandler_def sample_text_def)

lemma nearest_hundredths_sample:
  "nearest_hundredths (of_nat 6000000 / 1024 / 1024) = 572"
  "nearest_hundredths (of_nat 5242880 / 1024 / 1024) = 500"
proof -
  have "\<lfloor>(of_nat 6000000 :: rat) / 1024 / 1024 * 100 + 1 / 2\<rfloor> = 572"
    by (rule floor_unique) simp_all
  then show "nearest_hundredths (of_nat 6000000 / 1024 / 1024) = 572"
    by (simp only: nearest_hundredths_def)
  have "\<lfloor>(of_nat 5242880 :: rat) / 1024 / 1024 * 100 + 1 / 2\<rfloor> = 500"
    by (rule floor_unique) simp_all
  then show "nearest_hundredths (of_nat 5242880 / 1024 / 1024) = 500"
    by (simp only: nearest_hundredths_def)
qed

lemma fixed2_digits_sample: "fixed2_digits 572 = ''5.72''" "fixed2_digits 500 = ''5.00''"
  by (simp_all add: fixed2_digits_eq show_nat.simps digit_char_def)

lemma toFixed2_sample:
  "toFixed2 (of_nat (file_size sample_text) / 1024 / 1024) = ''5.72''"
  "toFixed2 (of_nat (maxFileSize ImageHandler) / 1024 / 1024) = ''5.00''"
proof -
  have "file_size sample_text = 6000000" "maxFileSize ImageHandler = 5242880"
    by (simp_all add: sample_text_def ImageHandler_def)
  then show "toFixed2 (of_nat (file_size sample_text) / 1024 / 1024) = ''5.72''"
    "toFixed2 (of_nat (maxFileSize ImageHandler) / 1024 / 1024) = ''5.00''"
    by (simp_all only: toFixed2_def toFixed2_abs_def nearest_hundredths_sample fixed2_digits_sample)
       simp_all
qed

lemma sample_text_size_error:
  "size_error ImageHandler sample_text = ''File too large: 5.72MB. Maximum size: 5.00MB''"
  by (simp only: size_error_def toFixed2_sample) simp

lemma sample_text_invalid:
  "file_type sample_text \<notin> set (allowedTypes ImageHandler)"
  "maxFileSize ImageHandler < file_size sample_text"
  by (simp_all add: ImageHandler_def sample_text_def)

text \<open>
  C2. A file whose mime type is not allowed and whose size exceeds the maximum is invalid
  with exactly two errors, the type error and the size error. The checks do not depend
  on each other: the type error is reported exactly when the type is not allowed, the
  size error exactly when the size exceeds the maximum.
\<close>

theorem validateImage_both_checks:
  "(file_type f \<notin> set (allowedTypes h) \<and> maxFileSize h < file_size f \<longrightarrow>
      valid (validateImage h f) = False \<and> length (errors (validateImage h f)) = 2 \<and>
      errors (validateImage h f) = [type_error h f, size_error h f]) \<and>
   (type_error h f \<in> set (errors (validateImage h f)) \<longleftrightarrow> file_type f \<notin> set (allowedTypes h)) \<and>
   (size_error h f \<in> set (errors (validateImage h f)) \<longleftrightarrow> maxFileSize h < file_size f)"
  using type_error_neq_size_error [of h f h f]
  by (auto simp: validateImage_valid validateImage_errors)

theorem validateImage_both_checks_witness:
  "file_type sample_text \<notin> set (allowedTypes ImageHandler) \<and>
   maxFileSize ImageHandler < file_size sample_text \<and>
   valid (validateImage ImageHandler sample_text) = False \<and>
   errors (validateImage ImageHandler sample_text) =
     [''Invalid file type: text/plain. Allowed types: image/jpeg, image/jpg, image/png, image/gif, image/webp'',
      ''File too large: 5.72MB. Maximum size: 5.00MB'']"
  using validateImage_both_checks [of sample_text ImageHandler] sample_text_invalid
  by (simp add: sample_text_type_error sample_text_size_error)

text \<open>
  C3. A file whose mime type is not a member of the allowed types is invalid, and the
  validator reports the error \<open>Invalid file type: {type}. Allowed types: {list}\<close>, where
  the list is the allowed types joined with a comma and a space; the offending type
  occurs in the message.
\<close>

theorem validateImage_type_error:
  assumes "file_type f \<notin> set (allowedTypes h)"
  shows "valid (validateImage h f) = False \<and>
         ''Invalid file type: '' @ file_type f @ ''. Allowed types: '' @ join '', '' (allowedTypes h)
           \<in> set (errors (validateImage h f)) \<and>
         hd (errors (validateImage h f)) =
           ''Invalid file type: '' @ file_type f @ ''. Allowed types: '' @ join '', '' (allowedTypes h) \<and>
         sublist (file_type f) (hd (errors (validateImage h f)))"
proof -
  have "sublist (file_type f) (''Invalid file type: '' @ file_type f @ (''. Allowed types: '' @ join '', '' (allowedTypes h)))"
    by (rule sublist_appendI)
  with assms show ?thesis
    by (simp add: validateImage_valid validateImage_errors type_error_def)
qed

theorem validateImage_type_error_witness:
  "file_type sample_text \<notin> set (allowedTypes ImageHandler) \<and>
   valid (validateImage ImageHandler sample_text) = False \<and>
   hd (errors (validateImage ImageHandler sample_text)) =
     ''Invalid file type: text/plain. Allowed types: image/jpeg, image/jpg, image/png, image/gif, image/webp''"
  using validateImage_type_error [OF sample_text_invalid(1)] sample_text_invalid(1)
  by (simp add: ImageHandler_def sample_text_def)

text \<open>
  C4. A file whose size is strictly greater than the maximum is invalid, and the validator
  reports the error \<open>File too large: {size}MB. Maximum size: {max}MB\<close>, the two numbers
  being what \<^verbatim>\<open>toFixed(2)\<close> prints for the size and for the maximum in megabytes (bytes
  divided by 1024 twice). For a size below \<open>2\<^sup>6\<^sup>4\<close> bytes, which \<^verbatim>\<open>File.size\<close> always
  is, and likewise for a maximum below \<open>2\<^sup>6\<^sup>4\<close>, the number printed has exactly two
  digits after the point and, read as a decimal, is within half a hundredth of the
  value in megabytes. The default policy has a maximum of 5242880 bytes and allows
  exactly the five image types.
\<close>

theorem validateImage_size_error:
  "(maxFileSize h < file_size f \<longrightarrow>
      valid (validateImage h f) = False \<and>
      ''File too large: '' @ toFixed2 (of_nat (file_size f) / 1024 / 1024) @
        ''MB. Maximum size: '' @ toFixed2 (of_nat (maxFileSize h) / 1024 / 1024) @ ''MB''
        \<in> set (errors (validateImage h f)) \<and>
      last (errors (validateImage h f)) =
        ''File too large: '' @ toFixed2 (of_nat (file_size f) / 1024 / 1024) @
        ''MB. Maximum size: '' @ toFixed2 (of_nat (maxFileSize h) / 1024 / 1024) @ ''MB'') \<and>
   (file_size f < 2 ^ 64 \<longrightarrow>
      two_decimals (toFixed2 (of_nat (file_size f) / 1024 / 1024)) \<and>
      \<bar>fixed2_value (toFixed2 (of_nat (file_size f) / 1024 / 1024)) - of_nat (file_size f) / 1024 / 1024\<bar>
        \<le> 1 / 200) \<and>
   (maxFileSize h < 2 ^ 64 \<longrightarrow>
      two_decimals (toFixed2 (of_nat (maxFileSize h) / 1024 / 1024)) \<and>
      \<bar>fixed2_value (toFixed2 (of_nat (maxFileSize h) / 1024 / 1024)) - of_nat (maxFileSize h) / 1024 / 1024\<bar>
        \<le> 1 / 200) \<and>
   maxFileSize ImageHandler = 5242880 \<and>
   set (allowedTypes ImageHandler) =
     {''image/jpeg'', ''image/jpg'', ''image/png'', ''image/gif'', ''image/webp''} \<and>
   length (allowedTypes ImageHandler) = 5"
proof -
  have "maxFileSize h < file_size f \<longrightarrow>
      valid (validateImage h f) = False \<and>
      size_error h f \<in> set (errors (validateImage h f)) \<and>
      last (errors (validateImage h f)) = size_error h f"
    by (simp add: validateImage_valid validateImage_errors)
  moreover have "maxFileSize ImageHandler = 5242880"
    "set (allowedTypes ImageHandler) =
       {''image/jpeg'', ''image/jpg'', ''image/png'', ''image/gif'', ''image/webp''}"
    "length (allowedTypes ImageHandler) = 5"
    by (simp_all add: ImageHandler_def)
  moreover have "two_decimals (toFixed2 (of_nat n / 1024 / 1024)) \<and>
      \<bar>fixed2_value (toFixed2 (of_nat n / 1024 / 1024)) - of_nat n / 1024 / 1024\<bar> \<le> 1 / 200"
    if "n < 2 ^ 64" for n :: nat
    using toFixed2_two_decimals [OF megabytes_nonneg megabytes_below_limit [OF that]]
      toFixed2_value [OF megabytes_nonneg megabytes_below_limit [OF that]]
    by blast
  ultimately show ?thesis
    unfolding size_error_def by blast
qed

theorem validateImage_size_error_witness:
  "maxFileSize ImageHandler < file_size sample_text \<and>
   file_size sample_text < 2 ^ 64 \<and> maxFileSize ImageHandler < 2 ^ 64 \<and>
   valid (validateImage ImageHandler sample_text) = False \<and>
   last (errors (validateImage ImageHandler sample_text)) =
     ''File too large: 5.72MB. Maximum size: 5.00MB'' \<and>
   two_decimals ''5.72'' \<and> two_decimals ''5.00'' \<and>
   \<bar>fixed2_value ''5.72'' - 6000000 / 1024 / 1024\<bar> \<le> 1 / 200"
proof -
  have b: "file_size sample_text < 2 ^ 64" "maxFileSize ImageHandler < 2 ^ 64"
    by (simp_all add: sample_text_def ImageHandler_def)
  have s: "rat_of_nat (file_size sample_text) = 6000000"
    by (simp add: sample_text_def)
  note t = validateImage_size_error [of ImageHandler sample_text]
  from t sample_text_invalid(2)
  have "last (errors (validateImage ImageHandler sample_text)) = size_error ImageHandler sample_text"
    "valid (validateImage ImageHandler sample_text) = False"
    unfolding size_error_def by blast+
  moreover from t b
  have "two_decimals (toFixed2 (of_nat (file_size sample_text) / 1024 / 1024))"
    "two_decimals (toFixed2 (of_nat (maxFileSize ImageHandler) / 1024 / 1024))"
    "\<bar>fixed2_value (toFixed2 (of_nat (file_size sample_text) / 1024 / 1024)) -
       of_nat (file_size sample_text) / 1024 / 1024\<bar> \<le> 1 / 200"
    by blast+
  then have "two_decimals ''5.72''" "two_decimals ''5.00''"
    "\<bar>fixed2_value ''5.72'' - of_nat (file_size sample_text) / 1024 / 1024\<bar> \<le> 1 / 200"
    by (simp_all only: toFixed2_sample)
  then have "two_decimals ''5.72''" "two_decimals ''5.00''"
    "\<bar>fixed2_value ''5.72'' - 6000000 / 1024 / 1024\<bar> \<le> 1 / 200"
    by (simp_all only: s)
  ultimately show ?thesis
    using sample_text_invalid(2) b by (simp only: sample_text_size_error simp_thms)
qed

text \<open>
  C10. The result of the validator is valid exactly when its list of errors is empty, and
  when both checks fail the type error comes before the size error.
\<close>

theorem validateImage_valid_iff_no_errors:
  "(valid (validateImage h f) \<longleftrightarrow> errors (validateImage h f) = []) \<and>
   (file_type f \<notin> set (allowedTypes h) \<and> maxFileSize h < file_size f \<longrightarrow>
      errors (validateImage h f) = [type_error h f, size_error h f] \<and>
      hd (errors (validateImage h f)) =
        ''Invalid file type: '' @ file_type f @ ''. Allowed types: '' @ join '', '' (allowedTypes h) \<and>
      last (errors (validateImage h f)) =
        ''File too large: '' @ toFixed2 (of_nat (file_size f) / 1024 / 1024) @
        ''MB. Maximum size: '' @ toFixed2 (of_nat (maxFileSize h) / 1024 / 1024) @ ''MB'')"
  by (auto simp: validateImage_valid validateImage_errors type_error_def size_error_def)

theorem validateImage_valid_iff_no_errors_witness:
  "file_type sample_text \<notin> set (allowedTypes ImageHandler) \<and>
   maxFileSize ImageHandler < file_size sample_text \<and>
   \<not> valid (validateImage ImageHandler sample_text) \<and>
   errors (validateImage ImageHandler sample_text) \<noteq> [] \<and>
   errors (validateImage ImageHandler sample_text) =
     [type_error ImageHandler sample_text, size_error ImageHandler sample_text] \<and>
   valid (validateImage ImageHandler (sample_image 0)) \<and>
   errors (validateImage ImageHandler (sample_image 0)) = []"
proof -
  have "valid (validateImage ImageHandler (sample_image 0))"
    by (simp add: validateImage_valid ImageHandler_def sample_image_def)
  then show ?thesis
    using validateImage_valid_iff_no_errors [of ImageHandler sample_text]
      validateImage_valid_iff_no_errors [of ImageHandler "sample_image 0"] sample_text_invalid
    by auto
qed

section \<open>Properties of the batch processor\<close>

lemma sample_image_valid: "valid (validateImage ImageHandler (sample_image k))"
  by (simp add: validateImage_valid ImageHandler_def sample_image_def)

lemma sample_text_not_valid: "\<not> valid (validateImage ImageHandler sample_text)"
  by (simp add: validateImage_valid ImageHandler_def sample_text_def)

lemma unreadable_valid: "valid (validateImage h (unreadable f)) = valid (validateImage h f)"
  by (simp add: validateImage_valid unreadable_def)

lemma sample_image_preview: "\<not> isl (createPreview (sample_image k))"
  by (simp add: createPreview_def readAsDataURL_def sample_image_def)

lemma unreadable_preview: "isl (createPreview (unreadable f))"
  by (simp add: createPreview_def readAsDataURL_def unreadable_def)

lemma accepted_samples:
  "accepted ImageHandler (sample_image k)"
  "\<not> accepted ImageHandler sample_text"
  "\<not> accepted h (unreadable f)"
  by (simp_all add: accepted_def sample_image_valid sample_text_not_valid sample_image_preview
        unreadable_preview)

lemma img_files_processed: "map img_file (processed h files) = filter (accepted h) files"
  by (simp only: processed_eq img_file_image_of)

lemma processed_member:
  assumes "p \<in> set (processed h files)"
  shows "img_file p \<in> set files" "accepted h (img_file p)" "p = image_of (img_file p)"
proof -
  from assms obtain f where f: "f \<in> set files" "accepted h f" "p = image_of f"
    by (auto simp: processed_eq)
  then have "img_file p = f"
    by (simp add: image_of_def)
  with f show "img_file p \<in> set files" "accepted h (img_file p)" "p = image_of (img_file p)"
    by simp_all
qed

lemma processed_two_out:
  assumes "a < length files" "b < length files" "a \<noteq> b"
    and "\<forall>i<length files. accepted h (files ! i) \<longleftrightarrow> i \<noteq> a \<and> i \<noteq> b"
  shows "map img_file (processed h files) =
           map ((!) files) (filter (\<lambda>i. i \<noteq> a \<and> i \<noteq> b) [0..<length files])"
    and "length (processed h files) = length files - 2"
proof -
  have "filter (\<lambda>i. accepted h (files ! i)) [0..<length files] =
          filter (\<lambda>i. i \<noteq> a \<and> i \<noteq> b) [0..<length files]"
    using assms(4) by (intro filter_cong) simp_all
  then show eq: "map img_file (processed h files) =
      map ((!) files) (filter (\<lambda>i. i \<noteq> a \<and> i \<noteq> b) [0..<length files])"
    using filter_by_index [of "accepted h" files] by (simp add: img_files_processed)
  have "length (processed h files) = length (map img_file (processed h files))"
    by simp
  also have "\<dots> = length files - 2"
    unfolding eq using assms(1-3) by (simp add: length_filter_two_out)
  finally show "length (processed h files) = length files - 2" .
qed

text \<open>
  C1. The files of the processed images are a subsequence of the input, in input order,
  so there are at most as many as input files; every processed image belongs to an
  input file that passes validation, carries the preview produced for that file and the
  file's name, size and type.
\<close>

theorem processImages_subsequence:
  "subseq (map img_file (processed h files)) files \<and>
   length (processed h files) \<le> length files \<and>
   (\<forall>p \<in> set (processed h files).
      img_file p \<in> set files \<and>
      valid (validateImage h (img_file p)) \<and>
      createPreview (img_file p) = Inr (previewUrl p) \<and>
      img_name p = file_name (img_file p) \<and>
      img_size p = file_size (img_file p) \<and>
      img_type p = file_type (img_file p))"
proof (intro conjI ballI)
  show "subseq (map img_file (processed h files)) files"
    by (simp add: img_files_processed)
  show "length (processed h files) \<le> length files"
    by (simp add: processed_eq)
next
  fix p
  assume p: "p \<in> set (processed h files)"
  note m = processed_member [OF p]
  show "img_file p \<in> set files"
    by (rule m(1))
  from m(2) show "valid (validateImage h (img_file p))"
    by (simp add: accepted_def)
  from m(2) have "\<not> isl (createPreview (img_file p))"
    by (simp add: accepted_def)
  then have "createPreview (img_file p) = Inr (projr (createPreview (img_file p)))"
    by simp
  also have "projr (createPreview (img_file p)) = previewUrl p"
    by (subst (2) m(3)) (simp add: image_of_def)
  finally show "createPreview (img_file p) = Inr (previewUrl p)" .
  show "img_name p = file_name (img_file p)"
    by (subst m(3)) (simp add: image_of_def)
  show "img_size p = file_size (img_file p)"
    by (subst m(3)) (simp add: image_of_def)
  show "img_type p = file_type (img_file p)"
    by (subst m(3)) (simp add: image_of_def)
qed

theorem processImages_subsequence_witness:
  "map img_file (processed ImageHandler [sample_image 0, sample_text, sample_image 1]) =
     [sample_image 0, sample_image 1] \<and>
   subseq [sample_image 0, sample_image 1] [sample_image 0, sample_text, sample_image 1] \<and>
   image_of (sample_image 1) \<in> set (processed ImageHandler [sample_image 0, sample_text, sample_image 1]) \<and>
   valid (validateImage ImageHandler (img_file (image_of (sample_image 1)))) \<and>
   createPreview (img_file (image_of (sample_image 1))) = Inr (previewUrl (image_of (sample_image 1)))"
proof -
  have a: "map img_file (processed ImageHandler [sample_image 0, sample_text, sample_image 1]) =
      [sample_image 0, sample_image 1]"
    by (simp add: img_files_processed accepted_samples)
  have b: "image_of (sample_image 1) \<in> set (processed ImageHandler [sample_image 0, sample_text, sample_image 1])"
    by (simp add: processed_eq accepted_samples)
  from processImages_subsequence [of ImageHandler "[sample_image 0, sample_text, sample_image 1]"]
  show ?thesis
    unfolding a using b by blast
qed

lemma failing_batch_nth:
  "length failing_batch = 25"
  "failing_batch ! 3 = sample_text"
  "failing_batch ! 7 = unreadable (sample_image 7)"
  "i < 25 \<Longrightarrow> i \<noteq> 3 \<Longrightarrow> i \<noteq> 7 \<Longrightarrow> failing_batch ! i = sample_image i"
  by (simp_all add: failing_batch_def)

lemma indices_without_3_7:
  "filter (\<lambda>i. i \<noteq> 3 \<and> i \<noteq> 7) [0..<25] =
     [0, 1, 2, 4, 5, 6, 8, 9, 10, 11, 12, 13, 14, 15, 16, 17, 18, 19, 20, 21, 22, 23, 24::nat]"
  by code_simp

text \<open>
  C6. In a batch of 25 files where one file fails validation, another passes validation
  but fails preview generation, and every other file passes both, the result has exactly
  23 entries: the files at all other positions, in their input order. Neither failure
  stops the loop.
\<close>

theorem processImages_isolates_failures:
  assumes "length files = 25" and "a < 25" and "b < 25" and "a \<noteq> b"
    and "\<not> valid (validateImage h (files ! a))"
    and "valid (validateImage h (files ! b))" and "isl (createPreview (files ! b))"
    and "\<forall>i<25. i \<noteq> a \<and> i \<noteq> b \<longrightarrow>
           valid (validateImage h (files ! i)) \<and> \<not> isl (createPreview (files ! i))"
  shows "length (processed h files) = 23 \<and>
         map img_file (processed h files) =
           map ((!) files) (filter (\<lambda>i. i \<noteq> a \<and> i \<noteq> b) [0..<25]) \<and>
         files ! a \<notin> img_file ` set (processed h files) \<and>
         files ! b \<notin> img_file ` set (processed h files)"
proof -
  have acc: "\<forall>i<length files. accepted h (files ! i) \<longleftrightarrow> i \<noteq> a \<and> i \<noteq> b"
    using assms by (auto simp: accepted_def)
  have ab: "a < length files" "b < length files"
    using assms by simp_all
  note two = processed_two_out [OF ab assms(4) acc]
  have "\<not> accepted h (files ! a)" "\<not> accepted h (files ! b)"
    using assms by (simp_all add: accepted_def)
  then have "files ! a \<notin> set (filter (accepted h) files)" "files ! b \<notin> set (filter (accepted h) files)"
    by simp_all
  then have "files ! a \<notin> img_file ` set (processed h files)"
    "files ! b \<notin> img_file ` set (processed h files)"
    by (simp_all only: img_files_processed [symmetric] set_map not_False_eq_True)
  with two assms(1) show ?thesis
    by simp
qed

theorem processImages_isolates_failures_witness:
  "length failing_batch = 25 \<and>
   \<not> valid (validateImage ImageHandler (failing_batch ! 3)) \<and>
   valid (validateImage ImageHandler (failing_batch ! 7)) \<and>
   isl (createPreview (failing_batch ! 7)) \<and>
   length (processed ImageHandler failing_batch) = 23 \<and>
   map img_file (processed ImageHandler failing_batch) =
     map ((!) failing_batch)
       [0, 1, 2, 4, 5, 6, 8, 9, 10, 11, 12, 13, 14, 15, 16, 17, 18, 19, 20, 21, 22, 23, 24]"
proof -
  have h1: "\<not> valid (validateImage ImageHandler (failing_batch ! 3))"
    by (simp add: failing_batch_nth sample_text_not_valid)
  have h2: "valid (validateImage ImageHandler (failing_batch ! 7))"
    by (simp add: failing_batch_nth unreadable_valid sample_image_valid)
  have h3: "isl (createPreview (failing_batch ! 7))"
    by (simp add: failing_batch_nth unreadable_preview)
  have h4: "\<forall>i<25. i \<noteq> 3 \<and> i \<noteq> 7 \<longrightarrow>
      valid (validateImage ImageHandler (failing_batch ! i)) \<and> \<not> isl (createPreview (failing_batch ! i))"
    by (simp add: failing_batch_nth sample_image_valid sample_image_preview)
  from processImages_isolates_failures [OF failing_batch_nth(1) _ _ _ h1 h2 h3 h4]
  show ?thesis
    using h1 h2 h3 by (simp add: failing_batch_nth(1) indices_without_3_7)
qed

lemma accepted_silent: "accepted h f \<Longrightarrow> diagnostics h f = []"
  by (cases "createPreview f") (simp_all add: accepted_def diagnostics_def)

lemma yields_positions_25:
  "concat (map (\<lambda>i. if i mod 10 = 9 then [Yield] else []) [0..<25]) = [Yield, Yield]"
  by code_simp

text \<open>
  C7, as amended. One iteration at index \<open>i\<close> adds the diagnostics of file \<open>i\<close> to the
  trace and then a yield exactly when \<open>i mod 10 = 9\<close>; the diagnostics contain no yield,
  so a batch of \<open>n\<close> files yields \<open>n div 10\<close> times. The processed images are the
  accepted files in input order, whatever the index. A batch of 25 files that all pass
  validation and whose previews are all produced gives 25 entries, one per file, and
  yields exactly twice.
\<close>

theorem processImages_yields:
  "trace (processImages h files) =
     concat (map (\<lambda>i. diagnostics h (files ! i) @ (if i mod 10 = 9 then [Yield] else []))
               [0..<length files]) \<and>
   Yield \<notin> set (diagnostics h f) \<and>
   yields (trace (processImages h files)) = length files div 10 \<and>
   processed h files = map image_of (filter (accepted h) files) \<and>
   (length files = 25 \<and> all_valid h files \<and> all_previewed files \<longrightarrow>
      length (processed h files) = 25 \<and> map img_file (processed h files) = files \<and>
      yields (trace (processImages h files)) = 2 \<and>
      trace (processImages h files) = [Yield, Yield])"
proof -
  have "Yield \<notin> set (diagnostics h f)"
    by (simp add: diagnostics_def split: sum.splits)
  moreover have "length (processed h files) = 25 \<and> map img_file (processed h files) = files \<and>
      yields (trace (processImages h files)) = 2 \<and>
      trace (processImages h files) = [Yield, Yield]"
    if "length files = 25" "all_valid h files" "all_previewed files"
  proof -
    from that(2,3) have acc: "\<forall>f \<in> set files. accepted h f"
      by (simp add: all_valid_def all_previewed_def accepted_def list_all_iff)
    then have "filter (accepted h) files = files"
      by simp
    then have "map img_file (processed h files) = files"
      by (simp only: img_files_processed)
    moreover from this have "length (processed h files) = length files"
      by (metis length_map)
    moreover have "trace (processImages h files) = [Yield, Yield]"
    proof -
      have "map (\<lambda>i. diagnostics h (files ! i) @ (if i mod 10 = 9 then [Yield] else [])) [0..<25] =
          map (\<lambda>i. if i mod 10 = 9 then [Yield] else []) [0..<25]"
        using acc that(1) by (intro map_cong) (simp_all add: accepted_silent)
      then show ?thesis
        by (simp only: trace_eq that(1) yields_positions_25)
    qed
    ultimately show ?thesis
      using that(1) by (simp add: yields_def)
  qed
  ultimately show ?thesis
    using trace_eq [of h files] yields_processImages [of h files] processed_eq [of h files]
    by blast
qed

lemma sample_batch_ok:
  "length sample_batch = 25" "all_valid ImageHandler sample_batch" "all_previewed sample_batch"
  by (simp_all add: sample_batch_def all_valid_def all_previewed_def list_all_iff
        sample_image_valid sample_image_preview)

theorem processImages_yields_witness:
  "length sample_batch = 25 \<and> all_valid ImageHandler sample_batch \<and> all_previewed sample_batch \<and>
   length (processed ImageHandler sample_batch) = 25 \<and>
   map img_file (processed ImageHandler sample_batch) = sample_batch \<and>
   yields (trace (processImages ImageHandler sample_batch)) = 2 \<and>
   trace (processImages ImageHandler sample_batch) = [Yield, Yield]"
  using processImages_yields [of ImageHandler sample_batch] sample_batch_ok
  by blast

text \<open>
  C7 as stated, with nothing said about the previews, does not hold: in this batch of 25
  files every file passes validation, but the preview of the file at index 4 fails, and
  only 24 entries are returned.
\<close>

theorem all_valid_batch_counterexample:
  "length unreadable_batch = 25 \<and> all_valid ImageHandler unreadable_batch \<and>
   length (processed ImageHandler unreadable_batch) = 24"
proof -
  have "all_valid ImageHandler unreadable_batch"
    by (simp add: unreadable_batch_def all_valid_def list_all_iff unreadable_valid sample_image_valid)
  moreover have "filter (accepted ImageHandler) unreadable_batch =
      map sample_image (filter (\<lambda>k. k \<noteq> 4) [0..<25])"
    by (simp add: unreadable_batch_def filter_map comp_def accepted_samples cong: filter_cong)
  moreover have "length (filter (\<lambda>k. k \<noteq> 4) [0..<25::nat]) = 24"
    by code_simp
  ultimately show ?thesis
    by (simp add: processed_eq unreadable_batch_def)
qed

section \<open>Properties of the upload simulator and of the preview\<close>

lemma uploadImage_cases:
  "file_bytes f = None \<Longrightarrow> uploadImage f = Inl (Error ''Failed to convert file'')"
  "file_bytes f = Some bs \<Longrightarrow>
     uploadImage f =
       Inr (Success (''data:'' @ file_type f @ '';base64,'' @ base64_encode bs) (file_name f) (file_size f))"
  by (simp_all add: uploadImage_def convertToDataUrl_def readAsDataURL_def)

lemma upload_entry_cases:
  "file_bytes f = None \<Longrightarrow> upload_entry f = Failure ''Failed to convert file'' (file_name f)"
  "file_bytes f = Some bs \<Longrightarrow>
     upload_entry f =
       Success (''data:'' @ file_type f @ '';base64,'' @ base64_encode bs) (file_name f) (file_size f)"
  by (simp_all add: upload_entry_def uploadImage_cases)

lemma sample_payload: "base64_encode [137, 80, 78, 71, 0] = ''iVBORwA=''"
  by (simp add: b64_char_def b64_alphabet_def)

lemma sample_image_fields:
  "file_bytes (sample_image 0) = Some [137, 80, 78, 71, 0]"
  "file_type (sample_image k) = ''image/png''"
  "file_size (sample_image k) = 2048"
  by (simp_all add: sample_image_def)

lemma sample_dataURL: "readAsDataURL (sample_image 0) = Some ''data:image/png;base64,iVBORwA=''"
  by (simp only: readAsDataURL_def sample_image_fields option.map sample_payload append_Cons append_Nil)

lemma sample_names: "file_name (sample_image 0) = ''photo0.png''" "file_name (sample_image 1) = ''photo1.png''"
  by (simp_all add: sample_image_def show_nat.simps digit_char_def)

text \<open>
  C5. A batch of \<open>N\<close> files gives \<open>N\<close> results, the \<open>k\<close>-th for the \<open>k\<close>-th file: a
  failure with the file's name when the read of that file fails, a success with the
  file's data URL, name and size when it succeeds. A failed file does not stop the loop:
  the results of the files before it and after it are what they are without it.
\<close>

theorem uploadImages_one_entry_per_file:
  "length (uploadImages files) = length files \<and>
   (\<forall>k<length files.
      filename (uploadImages files ! k) = file_name (files ! k) \<and>
      (file_bytes (files ! k) = None \<longrightarrow>
         uploadImages files ! k = Failure ''Failed to convert file'' (file_name (files ! k))) \<and>
      (\<forall>bs. file_bytes (files ! k) = Some bs \<longrightarrow>
         uploadImages files ! k =
           Success (''data:'' @ file_type (files ! k) @ '';base64,'' @ base64_encode bs)
             (file_name (files ! k)) (file_size (files ! k)))) \<and>
   uploadImages (before @ file # after) =
     uploadImages before @ uploadImages [file] @ uploadImages after"
proof -
  have "filename (upload_entry f) = file_name f" for f
    by (cases "file_bytes f") (simp_all add: upload_entry_cases)
  then show ?thesis
    by (simp add: uploadImages_eq upload_entry_cases)
qed

theorem uploadImages_one_entry_per_file_witness:
  "length upload_batch = 3 \<and> file_bytes (upload_batch ! 1) = None \<and>
   length (uploadImages upload_batch) = 3 \<and>
   uploadImages upload_batch ! 0 = Success ''data:image/png;base64,iVBORwA='' ''photo0.png'' 2048 \<and>
   uploadImages upload_batch ! 1 = Failure ''Failed to convert file'' ''photo1.png'' \<and>
   uploadImages upload_batch ! 2 = Success ''data:text/plain;base64,aGk='' ''notes.txt'' 6000000"
proof -
  have n: "length upload_batch = 3"
    by (simp add: upload_batch_def)
  have b: "file_bytes (upload_batch ! 0) = Some [137, 80, 78, 71, 0]"
    "file_bytes (upload_batch ! 1) = None"
    "file_bytes (upload_batch ! 2) = Some [104, 105]"
    by (simp_all add: upload_batch_def sample_image_def sample_text_def unreadable_def)
  have f: "file_name (upload_batch ! 0) = ''photo0.png''" "file_name (upload_batch ! 1) = ''photo1.png''"
    "file_name (upload_batch ! 2) = ''notes.txt''"
    "file_type (upload_batch ! 0) = ''image/png''" "file_type (upload_batch ! 2) = ''text/plain''"
    "file_size (upload_batch ! 0) = 2048" "file_size (upload_batch ! 2) = 6000000"
    by (simp_all add: upload_batch_def unreadable_def sample_image_def sample_text_def
          show_nat.simps digit_char_def)
  have e: "base64_encode [104, 105] = ''aGk=''"
    by (simp add: b64_char_def b64_alphabet_def)
  have k: "0 < length upload_batch" "1 < length upload_batch" "2 < length upload_batch"
    by (simp_all add: n)
  note t = uploadImages_one_entry_per_file [of upload_batch]
  from t have len: "length (uploadImages upload_batch) = length upload_batch"
    by blast
  from t k(1) b(1) have "uploadImages upload_batch ! 0 =
      Success (''data:'' @ file_type (upload_batch ! 0) @ '';base64,'' @ base64_encode [137, 80, 78, 71, 0])
        (file_name (upload_batch ! 0)) (file_size (upload_batch ! 0))"
    by blast
  then have r0: "uploadImages upload_batch ! 0 =
      Success ''data:image/png;base64,iVBORwA='' ''photo0.png'' 2048"
    by (simp only: f sample_payload append_Cons append_Nil)
  from t k(2) b(2) have "uploadImages upload_batch ! 1 =
      Failure ''Failed to convert file'' (file_name (upload_batch ! 1))"
    by blast
  then have r1: "uploadImages upload_batch ! 1 = Failure ''Failed to convert file'' ''photo1.png''"
    by (simp only: f)
  from t k(3) b(3) have "uploadImages upload_batch ! 2 =
      Success (''data:'' @ file_type (upload_batch ! 2) @ '';base64,'' @ base64_encode [104, 105])
        (file_name (upload_batch ! 2)) (file_size (upload_batch ! 2))"
    by blast
  then have r2: "uploadImages upload_batch ! 2 =
      Success ''data:text/plain;base64,aGk='' ''notes.txt'' 6000000"
    by (simp only: f e append_Cons append_Nil)
  from n b(2) len r0 r1 r2 show ?thesis
    by simp
qed

text \<open>
  C8. \<^verbatim>\<open>uploadImage\<close> fails exactly when the read of the file fails. When the read
  succeeds, the result is a success whose url is the data URL of the file, the one
  \<^verbatim>\<open>createPreview\<close> returns, whose filename is the file's name and whose size is the
  file's size.
\<close>

theorem uploadImage_fails_iff_read_fails:
  "(isl (uploadImage f) \<longleftrightarrow> file_bytes f = None) \<and>
   (isl (uploadImage f) \<longleftrightarrow> readAsDataURL f = None) \<and>
   (\<forall>u. readAsDataURL f = Some u \<longrightarrow>
      uploadImage f = Inr (Success u (file_name f) (file_size f)) \<and> createPreview f = Inr u) \<and>
   (\<forall>bs. file_bytes f = Some bs \<longrightarrow>
      readAsDataURL f = Some (''data:'' @ file_type f @ '';base64,'' @ base64_encode bs))"
  by (cases "file_bytes f")
     (simp_all add: uploadImage_def convertToDataUrl_def createPreview_def readAsDataURL_def)

theorem uploadImage_fails_iff_read_fails_witness:
  "readAsDataURL (sample_image 0) = Some ''data:image/png;base64,iVBORwA='' \<and>
   uploadImage (sample_image 0) = Inr (Success ''data:image/png;base64,iVBORwA='' ''photo0.png'' 2048) \<and>
   createPreview (sample_image 0) = Inr ''data:image/png;base64,iVBORwA='' \<and>
   file_bytes (unreadable (sample_image 0)) = None \<and> isl (uploadImage (unreadable (sample_image 0)))"
proof -
  note r = sample_dataURL
  have s: "file_size (sample_image 0) = 2048"
    by (simp add: sample_image_def)
  have n: "file_bytes (unreadable (sample_image 0)) = None"
    by (simp add: unreadable_def)
  from uploadImage_fails_iff_read_fails [of "sample_image 0"] r
  have "uploadImage (sample_image 0) =
      Inr (Success ''data:image/png;base64,iVBORwA='' (file_name (sample_image 0)) (file_size (sample_image 0)))"
    "createPreview (sample_image 0) = Inr ''data:image/png;base64,iVBORwA=''"
    by blast+
  moreover from uploadImage_fails_iff_read_fails [of "unreadable (sample_image 0)"] n
  have "isl (uploadImage (unreadable (sample_image 0)))"
    by blast
  ultimately show ?thesis
    using r n by (simp add: sample_names s)
qed

text \<open>
  C9. For a file whose read succeeds, \<^verbatim>\<open>createPreview\<close> returns the data URL
  \<open>data:<mime>;base64,<payload>\<close> with the file's own mime type, and decoding the payload
  from base64 gives back exactly the bytes of the file.
\<close>

theorem createPreview_roundtrip:
  assumes "file_bytes f = Some bs"
  shows "\<exists>uri. createPreview f = Inr uri \<and>
           uri = ''data:'' @ file_type f @ '';base64,'' @ payload (file_type f) uri \<and>
           base64_decode (payload (file_type f) uri) = Some bs"
  using assms
  by (simp add: createPreview_def readAsDataURL_def payload_def base64_roundtrip)

theorem createPreview_roundtrip_witness:
  "file_bytes (sample_image 0) = Some [137, 80, 78, 71, 0] \<and>
   createPreview (sample_image 0) = Inr ''data:image/png;base64,iVBORwA='' \<and>
   payload (file_type (sample_image 0)) ''data:image/png;base64,iVBORwA='' = ''iVBORwA='' \<and>
   base64_decode ''iVBORwA='' = Some [137, 80, 78, 71, 0]"
proof -
  have b: "file_bytes (sample_image 0) = Some [137, 80, 78, 71, 0]"
    by (simp add: sample_image_def)
  have c: "createPreview (sample_image 0) = Inr ''data:image/png;base64,iVBORwA=''"
    by (simp add: createPreview_def sample_dataURL)
  have p: "payload (file_type (sample_image 0)) ''data:image/png;base64,iVBORwA='' = ''iVBORwA=''"
    by (simp add: payload_def sample_image_def)
  from createPreview_roundtrip [OF b] c
  have "base64_decode (payload (file_type (sample_image 0)) ''data:image/png;base64,iVBORwA='') =
      Some [137, 80, 78, 71, 0]"
    by auto
  with b c p show ?thesis
    by simp
qed

end
